theory Spec2Isabelle
  imports Complex_Main "HOL-Library.AList"
begin

section \<open>Time: instants, calendar days and virtual days\<close>

text \<open>
  An instant is a number of milliseconds since the epoch (\<open>Date.now()\<close>,
  \<open>dayjs(x).valueOf()\<close>), an \<^typ>\<open>int\<close>. A day key, the string
  \<open>dayjs(x).format('YYYY-MM-DD')\<close>, is modelled by the number of the day since the
  epoch: the two are in bijection, and the program only compares day keys for equality and
  uses them as map keys. The local clock is taken to be UTC, with no daylight saving, so a
  day is 86400000 ms long.
\<close>

definition calendarDay :: "int \<Rightarrow> int" where
  \<comment> \<open>\<open>dayjs(ts).format('YYYY-MM-DD')\<close>: the raw calendar date of an instant.\<close>
  "calendarDay ts = ts div 86400000"

definition dayjsOfDay :: "int \<Rightarrow> int" where
  \<comment> \<open>\<open>dayjs(dateStr)\<close>: a day key parsed back, the instant at which the day starts.\<close>
  "dayjsOfDay d = d * 86400000"

definition startOfDay :: "int \<Rightarrow> int" where
  \<comment> \<open>\<open>dayjs(ts).startOf('day')\<close>\<close>
  "startOfDay ts = dayjsOfDay (calendarDay ts)"

definition endOfDay :: "int \<Rightarrow> int" where
  \<comment> \<open>\<open>dayjs(ts).endOf('day')\<close>: the last millisecond of the day.\<close>
  "endOfDay ts = startOfDay ts + 86399999"

definition getVirtualDate :: "int \<Rightarrow> int" where
  \<comment> \<open>Modelled from the spec: \<open>getVirtualDate\<close> of \<open>logic.js\<close>, which is not among the
     sources. The accounting day starts at 4 AM: an instant between midnight and 4 AM
     belongs to the previous calendar day (section 4.1 of the specification, and the
     comments of \<open>service.js\<close> at its two uses).\<close>
  "getVirtualDate ts = calendarDay (ts - 4 * 3600000)"

section \<open>Data model\<close>

text \<open>
  \<open>kcal\<close> is a JavaScript number; it is modelled by a rational, every sum being taken in
  the order in which the program takes it. A field that may be \<open>undefined\<close> is an option.
\<close>

record log =
  l_id :: nat
  l_timestamp :: int
  l_type :: string
  l_kcal :: "rat option"
  l_memo :: "string option"
  l_exerciseKey :: string
  l_minutes :: rat
  l_size :: "int option"    \<comment> \<open>\<open>parseInt(l.size)\<close>, \<open>None\<close> when it is \<open>NaN\<close>\<close>
  l_abv :: "rat option"     \<comment> \<open>\<open>parseFloat(l.abv)\<close>, \<open>None\<close> when it is \<open>NaN\<close>\<close>
  l_style :: string
  l_count :: "rat option"
  l_other :: string         \<comment> \<open>name, brewery, brand, rating: fields the engine never reads\<close>

record check =
  c_id :: nat
  c_timestamp :: int
  c_isDryDay :: bool
  c_isSaved :: bool
  c_weight :: "rat option"

record archive =
  a_id :: nat
  a_startDate :: int
  a_endDate :: int
  a_mode :: string
  a_totalBalance :: rat
  a_logs :: "log list"
  a_createdAt :: int
  a_updatedAt :: "int option"

section \<open>Duplicate resolution: \<open>_deduplicateChecks\<close>\<close>

text \<open>
  The accumulator of the \<open>reduce\<close> is an object keyed by the date string; its values are
  read back with \<open>Object.values\<close>, in the order in which the keys were first inserted.
  It is an association list: \<^const>\<open>AList.update\<close> replaces the value of a key in place
  and appends a new key at the end.
\<close>

definition dedupStep :: "(int \<times> check) list \<Rightarrow> check \<Rightarrow> (int \<times> check) list" where
  "dedupStep acc cur =
     (let dateStr = calendarDay (c_timestamp cur) in
      case map_of acc dateStr of
        None \<Rightarrow> AList.update dateStr cur acc
      | Some existing \<Rightarrow>
          if \<not> c_isSaved existing \<and> c_isSaved cur then AList.update dateStr cur acc
          else acc)"

definition deduplicateChecks :: "check list \<Rightarrow> check list" where
  "deduplicateChecks rawChecks = map snd (foldl dedupStep [] rawChecks)"

section \<open>The store: three tables and the settings\<close>

text \<open>
  A table is the list of its rows in the order of the primary key, which is how
  \<open>toArray()\<close> returns it. \<open>add\<close> and \<open>bulkAdd\<close> of an object without \<open>id\<close> take the
  next key of the table's key generator. The settings of \<open>localStorage\<close> that hold a
  number are options: \<open>None\<close> when the key is absent or its text does not parse
  (\<open>parseInt\<close> gives \<open>NaN\<close>).
\<close>

record store =
  db_logs :: "log list"
  db_checks :: "check list"
  db_period_archives :: "archive list"
  nextLogId :: nat
  nextArchiveId :: nat
  PERIOD_MODE :: "string option"
  PERIOD_START :: "int option"
  PERIOD_END_DATE :: "int option"
  CUSTOM_LABEL :: "string option"

definition kcalOr0 :: "log \<Rightarrow> rat" where
  \<comment> \<open>\<open>l.kcal || 0\<close>\<close>
  "kcalOr0 l = (case l_kcal l of None \<Rightarrow> 0 | Some k \<Rightarrow> k)"

definition sumKcal :: "log list \<Rightarrow> rat" where
  \<comment> \<open>\<open>logs.reduce((sum, l) => sum + (l.kcal || 0), 0)\<close>\<close>
  "sumKcal ls = foldl (\<lambda>sum l. sum + kcalOr0 l) 0 ls"

definition logsBelow :: "int \<Rightarrow> log list \<Rightarrow> log list" where
  \<comment> \<open>\<open>db.logs.where('timestamp').below(x).toArray()\<close>: in the order of the index\<close>
  "logsBelow x ls = sort_key l_timestamp (filter (\<lambda>l. l_timestamp l < x) ls)"

definition logsBetween :: "int \<Rightarrow> int \<Rightarrow> log list \<Rightarrow> log list" where
  \<comment> \<open>\<open>db.logs.where('timestamp').between(lo, hi, true, true).toArray()\<close>\<close>
  "logsBetween lo hi ls =
     sort_key l_timestamp (filter (\<lambda>l. lo \<le> l_timestamp l \<and> l_timestamp l \<le> hi) ls)"

definition bulkAdd :: "log list \<Rightarrow> store \<Rightarrow> store" where
  \<comment> \<open>\<open>db.logs.bulkAdd(objects)\<close> for objects without \<open>id\<close>: each is stored under the
     next key. The \<open>id\<close> an object of the model carries is overwritten, which is the
     \<open>({id, ...rest}) => rest\<close> of the caller.\<close>
  "bulkAdd objects s =
     foldl (\<lambda>s x. s\<lparr>db_logs := db_logs s @ [x\<lparr>l_id := nextLogId s\<rparr>],
                     nextLogId := Suc (nextLogId s)\<rparr>) s objects"

section \<open>Archive Consistency Manager\<close>

definition getStartOfWeek :: "int \<Rightarrow> int" where
  \<comment> \<open>Day 0 of the epoch is a Thursday, so \<open>d.day()\<close> is \<open>(calendarDay d + 4) mod 7\<close>
     with Sunday 0; \<open>d.day() || 7\<close> makes Sunday 7.\<close>
  "getStartOfWeek d =
     (let wd = (calendarDay d + 4) mod 7;
          day = (if wd = 0 then 7 else wd)
      in startOfDay (d - (day - 1) * 86400000))"

definition dayOfMonth :: "int \<Rightarrow> int" where
  \<comment> \<open>\<open>dayjs(ts).date()\<close>: the day of the month (1 to 31) in the proleptic Gregorian
     calendar, computed from the day number.\<close>
  "dayOfMonth ts =
     (let z = calendarDay ts + 719468;
          doe = z mod 146097;
          yoe = (doe - doe div 1460 + doe div 36524 - doe div 146096) div 365;
          doy = doe - (365 * yoe + yoe div 4 - yoe div 100);
          mp = (5 * doy + 2) div 153
      in doy - (153 * mp + 2) div 5 + 1)"

definition startOfMonth :: "int \<Rightarrow> int" where
  \<comment> \<open>\<open>dayjs(ts).startOf('month')\<close>\<close>
  "startOfMonth ts = dayjsOfDay (calendarDay ts - (dayOfMonth ts - 1))"

definition calculatePeriodStart :: "string \<Rightarrow> int \<Rightarrow> int" where
  "calculatePeriodStart mode now =
     (if mode = ''weekly'' then getStartOfWeek now
      else if mode = ''monthly'' then startOfMonth now
      else if mode = ''custom'' then startOfDay now
      else 0)"

definition archiveAndReset :: "int \<Rightarrow> int \<Rightarrow> string \<Rightarrow> int \<Rightarrow> store \<Rightarrow> store" where
  \<comment> \<open>\<open>archiveAndReset(currentStart, nextStart, mode)\<close>, run at the instant \<open>now\<close>.\<close>
  "archiveAndReset currentStart nextStart mode now s =
     (let logsToArchive = logsBelow nextStart (db_logs s);
          s1 = (if logsToArchive \<noteq> [] then
                  (case find (\<lambda>a. a_startDate a = currentStart) (db_period_archives s) of
                     None \<Rightarrow>
                       s\<lparr>db_period_archives := db_period_archives s @
                            [\<lparr>a_id = nextArchiveId s,
                              a_startDate = currentStart,
                              a_endDate = nextStart - 1,
                              a_mode = mode,
                              a_totalBalance = sumKcal logsToArchive,
                              a_logs = logsToArchive,
                              a_createdAt = now,
                              a_updatedAt = None\<rparr>],
                          nextArchiveId := Suc (nextArchiveId s)\<rparr>
                   | Some existingArchive \<Rightarrow> s)
                else s)
      in s1\<lparr>PERIOD_START := Some nextStart\<rparr>)"

definition truthy :: "int option \<Rightarrow> bool" where
  \<comment> \<open>The truth value of a number that may be \<open>NaN\<close> or \<open>undefined\<close>.\<close>
  "truthy v = (case v of None \<Rightarrow> False | Some n \<Rightarrow> n \<noteq> 0)"

definition currentMode :: "string \<Rightarrow> store \<Rightarrow> string" where
  \<comment> \<open>\<open>localStorage.getItem(PERIOD_MODE) || APP.DEFAULTS.PERIOD_MODE\<close>; the default is a
     constant of \<open>constants.js\<close>, a parameter here.\<close>
  "currentMode dflt s =
     (case PERIOD_MODE s of None \<Rightarrow> dflt | Some m \<Rightarrow> if m = [] then dflt else m)"

definition checkPeriodRollover :: "string \<Rightarrow> int \<Rightarrow> store \<Rightarrow> bool \<times> store" where
  "checkPeriodRollover dflt now s =
     (let mode = currentMode dflt s in
      if mode = ''permanent'' then (False, s)
      else if \<not> truthy (PERIOD_START s) then
        (False, s\<lparr>PERIOD_START := Some (calculatePeriodStart mode now)\<rparr>)
      else
        (let storedStart = the (PERIOD_START s) in
         if mode = ''weekly'' then
           (let currentWeekStart = getStartOfWeek now in
            if calendarDay currentWeekStart \<noteq> calendarDay storedStart
            then (True, archiveAndReset storedStart currentWeekStart mode now s)
            else (False, s))
         else if mode = ''monthly'' then
           (let currentMonthStart = startOfMonth now in
            if calendarDay currentMonthStart \<noteq> calendarDay storedStart
            then (True, archiveAndReset storedStart currentMonthStart mode now s)
            else (False, s))
         else if mode = ''custom'' then
           (case PERIOD_END_DATE s of
              None \<Rightarrow> (False, s)
            | Some endDateTs \<Rightarrow>
                if endDateTs \<noteq> 0 \<and> endOfDay endDateTs < now then (True, s) else (False, s))
         else (False, s)))"

record customData =
  cd_startDate :: "int option"
  cd_endDate :: "int option"
  cd_label :: "string option"

definition restoreArchive :: "store \<times> nat \<Rightarrow> archive \<Rightarrow> store \<times> nat" where
  \<comment> \<open>The body of the loop over the archives: the store and \<open>restoredCount\<close>.\<close>
  "restoreArchive acc arch =
     (case acc of (s, restoredCount) \<Rightarrow>
        if a_logs arch \<noteq> []
        then (bulkAdd (a_logs arch) s, restoredCount + length (a_logs arch))
        else (s, restoredCount))"

definition updatePeriodSettings ::
  "string \<Rightarrow> customData \<Rightarrow> int \<Rightarrow> store \<Rightarrow> (string \<times> nat) \<times> store" where
  \<comment> \<open>The result is \<open>{mode, restoredCount}\<close>.\<close>
  "updatePeriodSettings newMode cd now s =
     (let s0 = s\<lparr>PERIOD_MODE := Some newMode\<rparr> in
      if newMode = ''custom'' then
        (let s1 = (if truthy (cd_startDate cd)
                   then s0\<lparr>PERIOD_START := Some (startOfDay (the (cd_startDate cd)))\<rparr> else s0);
             s2 = (if truthy (cd_endDate cd)
                   then s1\<lparr>PERIOD_END_DATE := Some (endOfDay (the (cd_endDate cd)))\<rparr> else s1);
             s3 = (case cd_label cd of
                     None \<Rightarrow> s2
                   | Some l \<Rightarrow> if l = [] then s2 else s2\<lparr>CUSTOM_LABEL := Some l\<rparr>)
         in ((newMode, 0), s3))
      else if newMode = ''permanent'' then
        (let archives = db_period_archives s0 in
         if archives \<noteq> [] then
           (case foldl restoreArchive (s0, 0) archives of
              (s1, restoredCount) \<Rightarrow>
                ((newMode, restoredCount),
                 s1\<lparr>db_period_archives := [], PERIOD_START := Some 0\<rparr>))
         else ((newMode, 0), s0))
      else
        ((newMode, 0), s0\<lparr>PERIOD_START := Some (calculatePeriodStart newMode now)\<rparr>))"

section \<open>Recalculation Orchestrator: \<open>recalcImpactedHistory\<close>\<close>

subsection \<open>The collaborators of \<open>logic.js\<close> and \<open>constants.js\<close>\<close>

text \<open>
  \<open>Calc\<close>, \<open>EXERCISE\<close> and \<open>STYLE_SPECS\<close> are imported from files that are not among the
  sources. The orchestrator is modelled over any such collaborators: they are the fields
  of a record that every function below takes as its first argument. The profile of
  \<open>Store.getProfile()\<close> is part of \<open>calculateExerciseBurn\<close>. \<open>toFixed1\<close> is
  \<open>Number.prototype.toFixed(1)\<close>.
\<close>

record dayEntry =
  hasBeer :: bool
  hasExercise :: bool
  balance :: rat

record calc =
  getStreakFromMap :: "(int \<rightharpoonup> dayEntry) \<Rightarrow> (int \<rightharpoonup> bool) \<Rightarrow> int \<Rightarrow> int \<Rightarrow> int"
  calculateExerciseBurn :: "rat \<Rightarrow> rat \<Rightarrow> rat"
  calculateExerciseCredit :: "rat \<Rightarrow> int \<Rightarrow> rat \<times> rat"
  calculateBeerDebit :: "int \<Rightarrow> rat \<Rightarrow> rat \<Rightarrow> rat \<Rightarrow> rat"
  EXERCISE :: "string \<rightharpoonup> rat"
  STYLE_SPECS :: "string \<rightharpoonup> rat"
  toFixed1 :: "rat \<Rightarrow> string"

subsection \<open>Snapshot Builder\<close>

definition logMapStep :: "calc \<Rightarrow> (int \<rightharpoonup> dayEntry) \<Rightarrow> log \<Rightarrow> (int \<rightharpoonup> dayEntry)" where
  \<comment> \<open>The body of the first \<open>allLogs.forEach\<close>, on \<open>logMap\<close>.\<close>
  "logMapStep C logMap l =
     (let d = getVirtualDate (l_timestamp l);
          e0 = (case logMap d of
                  None \<Rightarrow> \<lparr>hasBeer = False, hasExercise = False, balance = 0\<rparr>
                | Some e \<Rightarrow> e);
          e1 = (if l_type l = ''beer'' then e0\<lparr>hasBeer := True\<rparr> else e0);
          e2 = (if l_type l = ''exercise'' then e1\<lparr>hasExercise := True\<rparr> else e1);
          e3 = (case l_kcal l of
                  Some k \<Rightarrow> e2\<lparr>balance := balance e2 + k\<rparr>
                | None \<Rightarrow>
                    if l_type l = ''exercise'' then
                      (let mets = (case EXERCISE C (l_exerciseKey l) of
                                     None \<Rightarrow> 3 | Some m \<Rightarrow> m);
                           burn = calculateExerciseBurn C mets (l_minutes l)
                       in e2\<lparr>balance := balance e2 + burn\<rparr>)
                    else if l_type l = ''beer'' then
                      (let ml = (case l_size l of
                                   None \<Rightarrow> 350 | Some n \<Rightarrow> if n = 0 then 350 else n);
                           abv = (case l_abv l of
                                    None \<Rightarrow> 5 | Some a \<Rightarrow> if a = 0 then 5 else a);
                           carb = (case STYLE_SPECS C (l_style l) of
                                     None \<Rightarrow> 3 | Some c \<Rightarrow> c);
                           cnt = (case l_count l of
                                    None \<Rightarrow> 1 | Some c \<Rightarrow> if c = 0 then 1 else c)
                       in e2\<lparr>balance := balance e2 + calculateBeerDebit C ml abv carb cnt\<rparr>)
                    else e2)
      in logMap(d \<mapsto> e3))"

definition buildLogMap :: "calc \<Rightarrow> log list \<Rightarrow> (int \<rightharpoonup> dayEntry)" where
  "buildLogMap C allLogs = foldl (logMapStep C) Map.empty allLogs"

definition buildCheckMap :: "check list \<Rightarrow> (int \<rightharpoonup> bool)" where
  \<comment> \<open>\<open>checkMap.set(getVirtualDate(c.timestamp), c.isDryDay)\<close> for every check\<close>
  "buildCheckMap allChecks =
     foldl (\<lambda>m c. m(getVirtualDate (c_timestamp c) \<mapsto> c_isDryDay c)) Map.empty allChecks"

definition MAX_SAFE_INTEGER :: int where
  "MAX_SAFE_INTEGER = 9007199254740991"

definition minTimestamp :: "log list \<Rightarrow> check list \<Rightarrow> int" where
  \<comment> \<open>\<open>minTs\<close> after both \<open>forEach\<close> loops\<close>
  "minTimestamp allLogs allChecks =
     foldl (\<lambda>minTs c. if c_timestamp c < minTs then c_timestamp c else minTs)
       (foldl (\<lambda>minTs l. if l_timestamp l < minTs then l_timestamp l else minTs)
          MAX_SAFE_INTEGER allLogs)
       allChecks"

definition firstDate :: "int \<Rightarrow> log list \<Rightarrow> check list \<Rightarrow> int" where
  \<comment> \<open>\<open>found ? dayjs(minTs).startOf('day') : dayjs()\<close>; \<open>found\<close> is set by every log and
     every check.\<close>
  "firstDate now allLogs allChecks =
     (if allLogs \<noteq> [] \<or> allChecks \<noteq> [] then startOfDay (minTimestamp allLogs allChecks)
      else now)"

definition exerciseLogsByDate :: "log list \<Rightarrow> int \<Rightarrow> log list" where
  \<comment> \<open>The map of the second \<open>allLogs.forEach\<close>, read with \<open>get(dateStr) || []\<close>.\<close>
  "exerciseLogsByDate allLogs =
     foldl (\<lambda>m l. if l_type l = ''exercise''
                   then (let dStr = getVirtualDate (l_timestamp l) in m(dStr := m dStr @ [l]))
                   else m)
       (\<lambda>d. []) allLogs"

subsection \<open>The memo\<close>

definition isNumDot :: "char \<Rightarrow> bool" where
  \<comment> \<open>the character class \<open>[0-9.]\<close>\<close>
  "isNumDot c = (c \<in> set ''0123456789.'')"

function stripBonus :: "string \<Rightarrow> string" where
  \<comment> \<open>\<open>memo.replace(/Streak Bonus x[0-9.]+/g, '')\<close>: one pass from the left; a match
     takes every following digit and dot, and the scan goes on behind it.\<close>
  "stripBonus [] = []"
| "stripBonus (c # cs) =
     (if take 14 (c # cs) = ''Streak Bonus x'' \<and> takeWhile isNumDot (drop 14 (c # cs)) \<noteq> []
      then stripBonus (dropWhile isNumDot (drop 14 (c # cs)))
      else c # stripBonus cs)"
  by pat_completeness auto
termination
proof (relation "measure length")
  show "wf (measure length)" by simp
next
  fix c :: char and cs :: string
  have "length (dropWhile isNumDot (drop 14 (c # cs))) \<le> length (drop 14 (c # cs))"
    by (rule length_dropWhile_le)
  then show "(dropWhile isNumDot (drop 14 (c # cs)), c # cs) \<in> measure length"
    by simp
next
  fix c :: char and cs :: string
  show "(cs, c # cs) \<in> measure length" by simp
qed

definition isSpace :: "char \<Rightarrow> bool" where
  \<comment> \<open>The white space \<open>trim()\<close> removes, as far as it is ASCII.\<close>
  "isSpace c = (c \<in> set [CHR '' '', CHR 0x09, CHR 0x0A, CHR 0x0B, CHR 0x0C, CHR 0x0D])"

definition trim :: "string \<Rightarrow> string" where
  "trim s = rev (dropWhile isSpace (rev (dropWhile isSpace s)))"

definition newMemo :: "calc \<Rightarrow> string option \<Rightarrow> rat \<Rightarrow> string" where
  "newMemo C memo bonusMultiplier =
     (let m = trim (stripBonus (case memo of None \<Rightarrow> [] | Some t \<Rightarrow> t)) in
      if bonusMultiplier > 1 then
        (if m \<noteq> [] then m @ '' Streak Bonus x'' @ toFixed1 C bonusMultiplier
         else ''Streak Bonus x'' @ toFixed1 C bonusMultiplier)
      else m)"

subsection \<open>The forward walk\<close>

datatype dbWrite =
  LogUpdate nat rat string            \<comment> \<open>\<open>db.logs.update(id, {kcal, memo})\<close>\<close>
| ArchiveUpdate nat rat "log list" int  \<comment> \<open>\<open>db.period_archives.update(id, {totalBalance, logs, updatedAt})\<close>\<close>

record walk =
  w_logs :: "log list"                 \<comment> \<open>the table \<open>db.logs\<close>\<close>
  w_logMap :: "int \<rightharpoonup> dayEntry"
  w_updateCount :: nat
  w_writes :: "dbWrite list"             \<comment> \<open>the updates persisted so far, in order\<close>

definition updateLog :: "nat \<Rightarrow> rat \<Rightarrow> string \<Rightarrow> log list \<Rightarrow> log list" where
  \<comment> \<open>\<open>db.logs.update(id, {kcal, memo})\<close>\<close>
  "updateLog i k m ls =
     map (\<lambda>l. if l_id l = i then l\<lparr>l_kcal := Some k, l_memo := Some m\<rparr> else l) ls"

definition recalcLog :: "calc \<Rightarrow> int \<Rightarrow> int \<Rightarrow> walk \<Rightarrow> log \<Rightarrow> walk" where
  \<comment> \<open>The body of \<open>for (const log of daysExerciseLogs)\<close>. \<open>lg\<close> (the \<open>log\<close> of the source) is the object read by
     \<open>toArray()\<close> before the walk.\<close>
  "recalcLog C dateStr streak w lg =
     (let mets = (case EXERCISE C (l_exerciseKey lg) of
                    None \<Rightarrow> 3 | Some m \<Rightarrow> if m = 0 then 3 else m);
          baseBurn = calculateExerciseBurn C mets (l_minutes lg);
          updatedCredit = calculateExerciseCredit C baseBurn streak;
          memo' = newMemo C (l_memo lg) (snd updatedCredit)
      in if \<bar>kcalOr0 lg - fst updatedCredit\<bar> > 1 / 10 \<or> l_memo lg \<noteq> Some memo' then
           w\<lparr>w_logs := updateLog (l_id lg) (fst updatedCredit) memo' (w_logs w),
             w_logMap := (case w_logMap w dateStr of
                            None \<Rightarrow> w_logMap w
                          | Some entry \<Rightarrow>
                              (w_logMap w)(dateStr \<mapsto>
                                 entry\<lparr>balance := balance entry + (fst updatedCredit - kcalOr0 lg)\<rparr>)),
             w_updateCount := Suc (w_updateCount w),
             w_writes := w_writes w @ [LogUpdate (l_id lg) (fst updatedCredit) memo']\<rparr>
         else w)"

definition walkDay ::
  "calc \<Rightarrow> (int \<rightharpoonup> bool) \<Rightarrow> int \<Rightarrow> (int \<Rightarrow> log list) \<Rightarrow> int \<Rightarrow> walk \<Rightarrow> walk" where
  \<comment> \<open>The body of the \<open>while\<close> loop behind the guard, for the day \<open>currentDate\<close>;
     \<open>anchor\<close> is the \<open>firstDate\<close> of the source.\<close>
  "walkDay C checkMap anchor byDate currentDate w =
     (let dateStr = calendarDay currentDate;
          streak = getStreakFromMap C (w_logMap w) checkMap anchor currentDate
      in foldl (recalcLog C dateStr streak) w (byDate dateStr))"

function forwardWalk :: "(int \<Rightarrow> 'w \<Rightarrow> 'w) \<Rightarrow> int \<Rightarrow> int \<Rightarrow> nat \<Rightarrow> 'w \<Rightarrow> 'w" where
  \<comment> \<open>\<open>while (currentDate.isBefore(today) || currentDate.isSame(today, 'day'))\<close> with
     \<open>if (safeGuard++ > 3650) break\<close>; \<open>body\<close> is the rest of the loop's body.\<close>
  "forwardWalk body today currentDate safeGuard w =
     (if currentDate < today \<or> calendarDay currentDate = calendarDay today then
        (if safeGuard > 3650 then w
         else forwardWalk body today (currentDate + 86400000) (Suc safeGuard)
                (body currentDate w))
      else w)"
  by pat_completeness auto
termination
  by (relation "measure (\<lambda>(body, today, currentDate, safeGuard, w). 3651 - safeGuard)") auto

subsection \<open>The refresh of the archives\<close>

definition updateArchive :: "nat \<Rightarrow> rat \<Rightarrow> log list \<Rightarrow> int \<Rightarrow> archive list \<Rightarrow> archive list" where
  \<comment> \<open>\<open>db.period_archives.update(id, {totalBalance, logs, updatedAt})\<close>\<close>
  "updateArchive i totalBalance periodLogs now as =
     map (\<lambda>a. if a_id a = i
               then a\<lparr>a_totalBalance := totalBalance, a_logs := periodLogs, a_updatedAt := Some now\<rparr>
               else a) as"

definition refreshArchive ::
  "log list \<Rightarrow> int \<Rightarrow> archive list \<times> dbWrite list \<Rightarrow> archive \<Rightarrow> archive list \<times> dbWrite list" where
  \<comment> \<open>The body of \<open>for (const archive of affectedArchives)\<close>.\<close>
  "refreshArchive logsNow now acc archive =
     (case acc of (archives, writes) \<Rightarrow>
        (let periodLogs = logsBetween (a_startDate archive) (a_endDate archive) logsNow;
             totalBalance = sumKcal periodLogs
         in (updateArchive (a_id archive) totalBalance periodLogs now archives,
             writes @ [ArchiveUpdate (a_id archive) totalBalance periodLogs now])))"

definition affectedArchives :: "int \<Rightarrow> archive list \<Rightarrow> archive list" where
  \<comment> \<open>\<open>db.period_archives.where('endDate').aboveOrEqual(changedTimestamp).toArray()\<close>\<close>
  "affectedArchives changedTimestamp as =
     sort_key a_endDate (filter (\<lambda>a. changedTimestamp \<le> a_endDate a) as)"

subsection \<open>The transaction\<close>

definition walkOf :: "calc \<Rightarrow> int \<Rightarrow> int \<Rightarrow> store \<Rightarrow> walk" where
  \<comment> \<open>Steps 1 and 2: the snapshot and the forward walk from the virtual day of
     \<open>changedTimestamp\<close> to the end of today.\<close>
  "walkOf C changedTimestamp now s =
     (let allLogs = db_logs s;
          allChecks = db_checks s;
          startDate = startOfDay (dayjsOfDay (getVirtualDate changedTimestamp));
          today = endOfDay now
      in forwardWalk
           (walkDay C (buildCheckMap allChecks) (firstDate now allLogs allChecks)
              (exerciseLogsByDate allLogs))
           today startDate 0
           \<lparr>w_logs = allLogs, w_logMap = buildLogMap C allLogs, w_updateCount = 0,
            w_writes = []\<rparr>)"

definition recalcImpactedHistory :: "calc \<Rightarrow> int \<Rightarrow> int \<Rightarrow> store \<Rightarrow> store \<times> dbWrite list" where
  \<comment> \<open>The committed transaction: the store it leaves and the updates it persisted.
     \<open>now\<close> is the instant of the run.\<close>
  "recalcImpactedHistory C changedTimestamp now s =
     (let w = walkOf C changedTimestamp now s;
          r = foldl (refreshArchive (w_logs w) now) (db_period_archives s, w_writes w)
                (affectedArchives changedTimestamp (db_period_archives s))
      in (s\<lparr>db_logs := w_logs w, db_period_archives := fst r\<rparr>, snd r))"

section \<open>Predicates of the statements\<close>

definition onlyKcalMemo :: "log \<Rightarrow> log \<Rightarrow> bool" where
  \<comment> \<open>\<open>l'\<close> is \<open>l\<close> but for \<open>kcal\<close> and \<open>memo\<close>.\<close>
  "onlyKcalMemo l l' =
     (l_id l' = l_id l \<and> l_timestamp l' = l_timestamp l \<and> l_type l' = l_type l \<and>
      l_exerciseKey l' = l_exerciseKey l \<and> l_minutes l' = l_minutes l \<and>
      l_size l' = l_size l \<and> l_abv l' = l_abv l \<and> l_style l' = l_style l \<and>
      l_count l' = l_count l \<and> l_other l' = l_other l)"

definition touched :: "int \<Rightarrow> log \<Rightarrow> log \<Rightarrow> bool" where
  \<comment> \<open>What a walk that starts on the virtual day \<open>D\<close> may do to a log.\<close>
  "touched D l l' =
     (onlyKcalMemo l l' \<and>
      (l' \<noteq> l \<longrightarrow> l_type l = ''exercise'' \<and> D \<le> getVirtualDate (l_timestamp l)))"

definition refreshed :: "int \<Rightarrow> archive \<Rightarrow> archive \<Rightarrow> bool" where
  \<comment> \<open>What the refresh for the changed instant \<open>t\<close> may do to an archive.\<close>
  "refreshed t a a' = (a_id a' = a_id a \<and> (a' \<noteq> a \<longrightarrow> t \<le> a_endDate a))"

definition archiveOk :: "archive \<Rightarrow> bool" where
  \<comment> \<open>The archive invariant: the cached total is the sum over the snapshot.\<close>
  "archiveOk a = (a_totalBalance a = sumKcal (a_logs a))"

definition causal :: "calc \<Rightarrow> bool" where
  \<comment> \<open>The streak the oracle returns for a day depends on the aggregates of earlier days
     only.\<close>
  "causal C =
     (\<forall>m m' cm a d. (\<forall>k. k < calendarDay d \<longrightarrow> m k = m' k) \<longrightarrow>
        getStreakFromMap C m cm a d = getStreakFromMap C m' cm a d)"


text \<open>
  The stores the service can be in: it starts without archives; the save and delete
  operations and the settings change anything but the table of the archives; the
  archives are written by the operations modelled above only.
\<close>

inductive reachable :: "calc \<Rightarrow> store \<Rightarrow> bool" for C :: calc where
  init: "db_period_archives s = [] \<Longrightarrow> reachable C s"
| mutate: "reachable C s \<Longrightarrow> db_period_archives s' = db_period_archives s \<Longrightarrow> reachable C s'"
| recalc: "reachable C s \<Longrightarrow> reachable C (fst (recalcImpactedHistory C t now s))"
| archive: "reachable C s \<Longrightarrow> reachable C (archiveAndReset currentStart nextStart m now s)"
| rollover: "reachable C s \<Longrightarrow> reachable C (snd (checkPeriodRollover dflt now s))"
| settings: "reachable C s \<Longrightarrow> reachable C (snd (updatePeriodSettings m cd now s))"

section \<open>Notions of the proofs\<close>

text \<open>The days a walk works on, and their number.\<close>

fun dayList :: "int \<Rightarrow> nat \<Rightarrow> int list" where
  "dayList cur 0 = []"
| "dayList cur (Suc n) = cur # dayList (cur + 86400000) n"

definition walkLength :: "int \<Rightarrow> int \<Rightarrow> nat \<Rightarrow> nat" where
  "walkLength today cur sg = min (3651 - sg) (nat (calendarDay today - calendarDay cur + 1))"


definition contrib :: "calc \<Rightarrow> log \<Rightarrow> rat" where
  "contrib C l =
     (case l_kcal l of
        Some k \<Rightarrow> k
      | None \<Rightarrow>
          if l_type l = ''exercise'' then
            calculateExerciseBurn C
              (case EXERCISE C (l_exerciseKey l) of None \<Rightarrow> 3 | Some m \<Rightarrow> m) (l_minutes l)
          else if l_type l = ''beer'' then
            calculateBeerDebit C
              (case l_size l of None \<Rightarrow> 350 | Some n \<Rightarrow> if n = 0 then 350 else n)
              (case l_abv l of None \<Rightarrow> 5 | Some a \<Rightarrow> if a = 0 then 5 else a)
              (case STYLE_SPECS C (l_style l) of None \<Rightarrow> 3 | Some c \<Rightarrow> c)
              (case l_count l of None \<Rightarrow> 1 | Some c \<Rightarrow> if c = 0 then 1 else c)
          else 0)"


definition dayTotal :: "calc \<Rightarrow> dayEntry \<Rightarrow> log list \<Rightarrow> dayEntry" where
  "dayTotal C e xs =
     \<lparr>hasBeer = (hasBeer e \<or> (\<exists>l \<in> set xs. l_type l = ''beer'')),
      hasExercise = (hasExercise e \<or> (\<exists>l \<in> set xs. l_type l = ''exercise'')),
      balance = balance e + sum_list (map (contrib C) xs)\<rparr>"

text \<open>
  The test of the walk on one log: \<open>needsUpdate\<close> is the condition under which
  \<open>recalcLog\<close> persists an update, \<open>rewrite\<close> what the update does to a row.
\<close>

definition rewrite :: "nat \<Rightarrow> rat \<Rightarrow> string \<Rightarrow> log \<Rightarrow> log" where
  "rewrite i k m l = (if l_id l = i then l\<lparr>l_kcal := Some k, l_memo := Some m\<rparr> else l)"








section \<open>Example ledgers\<close>

text \<open>
  The scenario of section 8 of the specification: a beer on day 0, an exercise of 100 kcal
  on day 1 and one on day 2 (all at noon), and a dry-day check for day 1. The example
  oracle counts a streak of 1 on the day after a dry day and then credits 1.2 times the
  base burn.
\<close>

definition exLog :: "nat \<Rightarrow> int \<Rightarrow> string \<Rightarrow> rat option \<Rightarrow> string option \<Rightarrow> log" where
  "exLog i ts ty k m =
     \<lparr>l_id = i, l_timestamp = ts, l_type = ty, l_kcal = k, l_memo = m,
      l_exerciseKey = ''walking'', l_minutes = 25, l_size = None, l_abv = None,
      l_style = [], l_count = None, l_other = []\<rparr>"

definition exCalc :: calc where
  "exCalc =
     \<lparr>getStreakFromMap =
        (\<lambda>logMap checkMap anchor cur. if checkMap (calendarDay cur - 1) = Some True then 1 else 0),
      calculateExerciseBurn = (\<lambda>mets minutes. mets * minutes),
      calculateExerciseCredit =
        (\<lambda>baseKcal streak. if 1 \<le> streak then (baseKcal * (6 / 5), 6 / 5) else (baseKcal, 1)),
      calculateBeerDebit = (\<lambda>ml abv carb cnt. - (of_int ml * cnt * (2 / 5))),
      EXERCISE = [''walking'' \<mapsto> 4],
      STYLE_SPECS = Map.empty,
      toFixed1 = (\<lambda>m. if m = 6 / 5 then ''1.2'' else ''1.0'')\<rparr>"

definition exStore :: store where
  "exStore =
     \<lparr>db_logs = [exLog 1 43200000 ''beer'' (Some (- 140)) None,
                 exLog 2 129600000 ''exercise'' (Some 100) (Some []),
                 exLog 3 216000000 ''exercise'' (Some 100) (Some [])],
      db_checks = [\<lparr>c_id = 1, c_timestamp = 129600000, c_isDryDay = True, c_isSaved = True,
                    c_weight = None\<rparr>],
      db_period_archives = [],
      nextLogId = 4, nextArchiveId = 1,
      PERIOD_MODE = Some ''weekly'', PERIOD_START = Some 0, PERIOD_END_DATE = None,
      CUSTOM_LABEL = None\<rparr>"

definition exArchived :: store where
  \<comment> \<open>Days 0 and 1 sealed at the instant 237600000 (18:00 of day 2).\<close>
  "exArchived = archiveAndReset 0 172800000 ''weekly'' 237600000 exStore"



definition exHidden :: store where
  \<comment> \<open>One exercise log whose memo holds a marker inside a marker.\<close>
  "exHidden = exStore\<lparr>db_logs :=
     [exLog 2 129600000 ''exercise'' (Some 100) (Some ''Streak BoStreak Bonus x1nus x2'')],
     db_checks := []\<rparr>"

definition exOne :: store where
  "exOne = exStore\<lparr>db_logs := [exLog 2 129600000 ''exercise'' (Some 100) (Some [])],
     db_checks := []\<rparr>"

definition exNoKcal :: store where
  \<comment> \<open>An exercise log without a stored \<open>kcal\<close> on day 1, and one of 100 kcal on day 2.\<close>
  "exNoKcal = exStore\<lparr>db_logs :=
     [exLog 2 129600000 ''exercise'' None (Some []),
      exLog 3 216000000 ''exercise'' (Some 100) (Some [])],
     db_checks := []\<rparr>"

definition exCalcToday :: calc where
  \<comment> \<open>An oracle that reads the balance of the day it is asked about.\<close>
  "exCalcToday = exCalc\<lparr>getStreakFromMap :=
     (\<lambda>logMap checkMap anchor cur.
        case logMap (calendarDay cur) of
          None \<Rightarrow> 0
        | Some e \<Rightarrow> if balance e < 110 then 1 else 0)\<rparr>"

definition exCalcPrev :: calc where
  \<comment> \<open>An oracle that reads the balance of the day before.\<close>
  "exCalcPrev = exCalc\<lparr>getStreakFromMap :=
     (\<lambda>logMap checkMap anchor cur.
        case logMap (calendarDay cur - 1) of
          None \<Rightarrow> 0
        | Some e \<Rightarrow> if 150 \<le> balance e then 1 else 0)\<rparr>"


declare forwardWalk.simps [simp del]

section \<open>Properties of the duplicate resolution\<close>

lemma foldl_dedupStep_one_day:
  "list_all (\<lambda>c. calendarDay (c_timestamp c) = d) cs \<Longrightarrow>
   foldl dedupStep [(d, e)] cs =
     [(d, if c_isSaved e then e else (case find c_isSaved cs of Some c \<Rightarrow> c | None \<Rightarrow> e))]"
proof (induction cs arbitrary: e)
  case Nil
  then show ?case by simp
next
  case (Cons c cs)
  then show ?case by (simp add: dedupStep_def)
qed

lemma deduplicateChecks_one_calendar_day:
  assumes "cs \<noteq> []" and "list_all (\<lambda>c. calendarDay (c_timestamp c) = d) cs"
  shows "deduplicateChecks cs = [case find c_isSaved cs of Some c \<Rightarrow> c | None \<Rightarrow> hd cs]"
proof (cases cs)
  case Nil
  with assms show ?thesis by simp
next
  case (Cons c cs')
  with assms(2) have day: "calendarDay (c_timestamp c) = d"
    and rest: "list_all (\<lambda>c. calendarDay (c_timestamp c) = d) cs'" by simp_all
  have "foldl dedupStep [] cs = foldl dedupStep [(d, c)] cs'"
    using day by (simp add: Cons dedupStep_def)
  then show ?thesis
    using foldl_dedupStep_one_day [OF rest, of c]
    by (simp add: deduplicateChecks_def Cons split: option.splits)
qed

text \<open>
  C6. Two raw check records of one virtual day are both returned: a placeholder written
  at 02:00 of day 1, when the virtual day is still day 0, and the record saved for day 0
  afterwards, stamped at noon of day 0. The helper buckets by the raw calendar date of
  the timestamp, so the records of one virtual day are resolved to one record only when
  they also share the calendar date (lemma \<open>deduplicateChecks_one_calendar_day\<close>).
\<close>

theorem deduplicateChecks_virtual_day_two_records:
  "getVirtualDate 93600000 = getVirtualDate 43200000 \<and>
   deduplicateChecks
     [\<lparr>c_id = 1, c_timestamp = 93600000, c_isDryDay = False, c_isSaved = False, c_weight = None\<rparr>,
      \<lparr>c_id = 2, c_timestamp = 43200000, c_isDryDay = True, c_isSaved = True, c_weight = None\<rparr>]
   = [\<lparr>c_id = 1, c_timestamp = 93600000, c_isDryDay = False, c_isSaved = False, c_weight = None\<rparr>,
      \<lparr>c_id = 2, c_timestamp = 43200000, c_isDryDay = True, c_isSaved = True, c_weight = None\<rparr>]"
  by (simp add: deduplicateChecks_def dedupStep_def getVirtualDate_def calendarDay_def)

section \<open>Properties of the Archive Consistency Manager\<close>

lemma find_append_None: "find P xs = None \<Longrightarrow> find P (xs @ ys) = find P ys"
  by (induction xs) (auto split: if_splits)

lemma archiveAndReset_logs: "db_logs (archiveAndReset cs ns m now s) = db_logs s"
  by (simp add: archiveAndReset_def Let_def split: option.splits)

lemma archiveAndReset_start: "PERIOD_START (archiveAndReset cs ns m now s) = Some ns"
  by (simp add: archiveAndReset_def Let_def split: option.splits)

lemma archiveAndReset_distinct:
  "distinct (map a_startDate (db_period_archives s)) \<Longrightarrow>
   distinct (map a_startDate (db_period_archives (archiveAndReset cs ns m now s)))"
  by (auto simp: archiveAndReset_def Let_def find_None_iff split: option.splits)

lemma archiveAndReset_twice:
  "archiveAndReset cs ns m now' (archiveAndReset cs ns m now s) = archiveAndReset cs ns m now s"
proof (cases "logsBelow ns (db_logs s) = []")
  case True
  then show ?thesis by (simp add: archiveAndReset_def)
next
  case False
  show ?thesis
  proof (cases "find (\<lambda>a. a_startDate a = cs) (db_period_archives s)")
    case None
    with False show ?thesis
      by (simp add: archiveAndReset_def Let_def find_append_None)
  next
    case (Some a)
    with False show ?thesis by (simp add: archiveAndReset_def Let_def)
  qed
qed




subsection \<open>Restoring the archives in the mode \<open>permanent\<close>\<close>

lemma bulkAdd_Nil: "bulkAdd [] s = s"
  by (simp add: bulkAdd_def)


lemma bulkAdd_append: "bulkAdd (xs @ ys) s = bulkAdd ys (bulkAdd xs s)"
  by (simp add: bulkAdd_def)

lemma restoreArchive_eq:
  "restoreArchive (s, n) a = (bulkAdd (a_logs a) s, n + length (a_logs a))"
  by (cases "a_logs a = []") (simp_all add: restoreArchive_def bulkAdd_Nil)

lemma foldl_restoreArchive:
  "foldl restoreArchive (s, n) as =
     (bulkAdd (concat (map a_logs as)) s, n + length (concat (map a_logs as)))"
proof (induction as arbitrary: s n)
  case Nil
  show ?case by (simp add: bulkAdd_Nil)
next
  case (Cons a as)
  show ?case by (simp add: Cons.IH restoreArchive_eq bulkAdd_append)
qed











section \<open>Properties of the Snapshot Builder\<close>

lemma exerciseLogsByDate_foldl:
  "foldl (\<lambda>m l. if l_type l = ''exercise''
                   then (let dStr = getVirtualDate (l_timestamp l) in m(dStr := m dStr @ [l]))
                   else m) m0 ls d
   = m0 d @ filter (\<lambda>l. l_type l = ''exercise'' \<and> getVirtualDate (l_timestamp l) = d) ls"
  by (induction ls arbitrary: m0) (simp_all add: Let_def)

lemma exerciseLogsByDate_eq:
  "exerciseLogsByDate ls d
   = filter (\<lambda>l. l_type l = ''exercise'' \<and> getVirtualDate (l_timestamp l) = d) ls"
  by (simp add: exerciseLogsByDate_def exerciseLogsByDate_foldl)

lemma firstDate_calendarDay:
  "ls \<noteq> [] \<or> cs \<noteq> [] \<Longrightarrow>
   calendarDay (firstDate now ls cs) = calendarDay (minTimestamp ls cs)"
  by (simp add: firstDate_def startOfDay_def dayjsOfDay_def calendarDay_def)

text \<open>
  C5. The anchor passed to the streak oracle is the start of the raw calendar day of the
  earliest timestamp (lemma \<open>firstDate_calendarDay\<close>). For a ledger whose only entry is a
  log at 02:00 of day 1, the anchor is day 1, whereas the virtual day of that instant,
  under which the log is filed in \<open>logMap\<close>, is day 0.
\<close>

theorem firstDate_raw_calendar_date:
  "calendarDay (firstDate 237600000 [exLog 1 93600000 ''beer'' (Some (- 140)) None] []) = 1 \<and>
   getVirtualDate (minTimestamp [exLog 1 93600000 ''beer'' (Some (- 140)) None] []) = 0"
  by (simp add: firstDate_def minTimestamp_def MAX_SAFE_INTEGER_def exLog_def startOfDay_def
      dayjsOfDay_def calendarDay_def getVirtualDate_def)

theorem firstDate_raw_calendar_date_witness:
  "calendarDay (firstDate 237600000 [exLog 1 93600000 ''beer'' (Some (- 140)) None] []) \<noteq>
   getVirtualDate (minTimestamp [exLog 1 93600000 ''beer'' (Some (- 140)) None] [])"
  using firstDate_raw_calendar_date by simp

section \<open>Properties of the forward walk\<close>

lemma calendarDay_mono: "a \<le> b \<Longrightarrow> calendarDay a \<le> calendarDay b"
  by (simp add: calendarDay_def zdiv_mono1)

lemma calendarDay_startOfDay: "calendarDay (startOfDay (dayjsOfDay d)) = d"
  by (simp add: calendarDay_def startOfDay_def dayjsOfDay_def)

lemma calendarDay_next: "calendarDay (cur + 86400000) = calendarDay cur + 1"
  by (simp add: calendarDay_def)

lemma walk_condition:
  "(cur < today \<or> calendarDay cur = calendarDay today) = (calendarDay cur \<le> calendarDay today)"
proof -
  have "cur < today \<Longrightarrow> calendarDay cur \<le> calendarDay today"
    by (simp add: calendarDay_mono)
  moreover have "calendarDay cur < calendarDay today \<Longrightarrow> cur < today"
    using calendarDay_mono [of today cur] by linarith
  ultimately show ?thesis by auto
qed

text \<open>
  The number of days the loop works on is counted by running it with a body that
  increments a counter: the loop's own variables do not depend on the body.
\<close>

lemma forwardWalk_count:
  "forwardWalk (\<lambda>d n. Suc n) today cur sg n =
     n + min (3651 - sg) (nat (calendarDay today - calendarDay cur + 1))"
proof (induction "\<lambda>(d::int) n. Suc n" today cur sg n rule: forwardWalk.induct)
  case (1 today cur sg n)
  show ?case
  proof (cases "calendarDay cur \<le> calendarDay today \<and> \<not> sg > 3650")
    case True
    then have "forwardWalk (\<lambda>d n. Suc n) today cur sg n =
               forwardWalk (\<lambda>d n. Suc n) today (cur + 86400000) (Suc sg) (Suc n)"
      by (subst forwardWalk.simps) (simp add: walk_condition)
    also have "\<dots> = Suc n + min (3651 - Suc sg)
                         (nat (calendarDay today - calendarDay (cur + 86400000) + 1))"
      using True by (intro "1.hyps") (simp_all add: walk_condition)
    also have "\<dots> = n + min (3651 - sg) (nat (calendarDay today - calendarDay cur + 1))"
      using True unfolding calendarDay_next by arith
    finally show ?thesis .
  next
    case False
    then have "forwardWalk (\<lambda>d n. Suc n) today cur sg n = n"
      by (subst forwardWalk.simps) (auto simp: walk_condition)
    with False show ?thesis by auto
  qed
qed

lemma forwardWalk_foldl:
  "forwardWalk body today cur sg w =
     foldl (\<lambda>w d. body d w) w (dayList cur (walkLength today cur sg))"
proof (induction body today cur sg w rule: forwardWalk.induct)
  case (1 body today cur sg w)
  show ?case
  proof (cases "calendarDay cur \<le> calendarDay today \<and> \<not> sg > 3650")
    case True
    then have len: "walkLength today cur sg = Suc (walkLength today (cur + 86400000) (Suc sg))"
      unfolding walkLength_def calendarDay_next by arith
    from True have "forwardWalk body today cur sg w
               = forwardWalk body today (cur + 86400000) (Suc sg) (body cur w)"
      by (subst forwardWalk.simps) (simp add: walk_condition)
    also have "\<dots> = foldl (\<lambda>w d. body d w) (body cur w)
                       (dayList (cur + 86400000) (walkLength today (cur + 86400000) (Suc sg)))"
      using True by (intro "1.IH") (simp_all add: walk_condition)
    finally show ?thesis by (simp add: len)
  next
    case False
    then have "forwardWalk body today cur sg w = w"
      by (subst forwardWalk.simps) (auto simp: walk_condition)
    moreover from False have "walkLength today cur sg = 0"
      unfolding walkLength_def by arith
    ultimately show ?thesis by simp
  qed
qed

lemma length_dayList: "length (dayList cur n) = n"
  by (induction n arbitrary: cur) simp_all

text \<open>
  C8, as amended. The walk ends for every input (the function is total: the counter
  \<open>safeGuard\<close> bounds the recursion). Whatever the body, it runs the body once for each of
  the first \<open>min 3651 k\<close> days from the start day on, where \<open>k\<close> is the number of days from
  the start day to today: the guard \<open>safeGuard++ > 3650\<close> lets the body run for the
  values 0 to 3650 of the counter, so a walk is cut after 3651 days.
\<close>

theorem forwardWalk_capped:
  "forwardWalk body today cur 0 w =
     foldl (\<lambda>w d. body d w) w (dayList cur (walkLength today cur 0)) \<and>
   length (dayList cur (walkLength today cur 0)) =
     min 3651 (nat (calendarDay today - calendarDay cur + 1)) \<and>
   forwardWalk (\<lambda>d n. Suc n) today cur 0 0 \<le> 3651"
  by (simp add: forwardWalk_foldl [of body] length_dayList walkLength_def forwardWalk_count)

theorem forwardWalk_runs_3651_days:
  "forwardWalk (\<lambda>d n. Suc n) (endOfDay 1793577600000)
     (startOfDay (dayjsOfDay (getVirtualDate 0))) 0 0 = 3651"
  by (simp add: forwardWalk_count calendarDay_def endOfDay_def startOfDay_def dayjsOfDay_def
      getVirtualDate_def)

lemma forwardWalk_invariant:
  "(\<And>d w. start \<le> d \<Longrightarrow> P w \<Longrightarrow> P (body d w)) \<Longrightarrow> start \<le> cur \<Longrightarrow> P w \<Longrightarrow>
   P (forwardWalk body today cur sg w)"
proof (induction body today cur sg w rule: forwardWalk.induct)
  case (1 body today cur sg w)
  show ?case
  proof (cases "(cur < today \<or> calendarDay cur = calendarDay today) \<and> \<not> sg > 3650")
    case True
    then have "forwardWalk body today cur sg w
               = forwardWalk body today (cur + 86400000) (Suc sg) (body cur w)"
      by (subst forwardWalk.simps) auto
    moreover have "P (forwardWalk body today (cur + 86400000) (Suc sg) (body cur w))"
    proof (rule "1.IH")
      show "cur < today \<or> calendarDay cur = calendarDay today" using True by simp
      show "\<not> 3650 < sg" using True by simp
      show "\<And>d w. start \<le> d \<Longrightarrow> P w \<Longrightarrow> P (body d w)" by (rule "1.prems"(1))
      show "start \<le> cur + 86400000" using "1.prems"(2) by simp
      show "P (body cur w)" using "1.prems" by blast
    qed
    ultimately show ?thesis by simp
  next
    case False
    then have "forwardWalk body today cur sg w = w"
      by (subst forwardWalk.simps) auto
    with "1.prems" show ?thesis by simp
  qed
qed

subsection \<open>What the walk may change in the table of the logs\<close>

lemma touched_refl: "list_all2 (touched D) ls ls"
  by (simp add: list_all2_same touched_def onlyKcalMemo_def)

lemma updateLog_touched:
  assumes dist: "distinct (map l_id orig)"
    and lg: "lg \<in> set orig" "l_type lg = ''exercise''" "D \<le> getVirtualDate (l_timestamp lg)"
    and inv: "list_all2 (touched D) orig cur"
  shows "list_all2 (touched D) orig (updateLog (l_id lg) k m cur)"
proof -
  have "list_all2
          (\<lambda>l l'. touched D l
             (if l_id l' = l_id lg then l'\<lparr>l_kcal := Some k, l_memo := Some m\<rparr> else l'))
          orig cur"
    using inv
  proof (rule list.rel_mono_strong)
    fix l l' assume mem: "l \<in> set orig" and t: "touched D l l'"
    show "touched D l
            (if l_id l' = l_id lg then l'\<lparr>l_kcal := Some k, l_memo := Some m\<rparr> else l')"
    proof (cases "l_id l' = l_id lg")
      case False
      with t show ?thesis by simp
    next
      case True
      from t have okm: "onlyKcalMemo l l'" by (simp add: touched_def)
      then have "l_id l = l_id lg" using True by (simp add: onlyKcalMemo_def)
      with dist mem lg(1) have "l = lg"
        by (meson distinct_map inj_on_eq_iff)
      moreover have "onlyKcalMemo l (l'\<lparr>l_kcal := Some k, l_memo := Some m\<rparr>)"
        using okm by (simp add: onlyKcalMemo_def)
      ultimately show ?thesis using True lg by (simp add: touched_def)
    qed
  qed
  then show ?thesis by (simp add: updateLog_def list_all2_map2)
qed

lemma recalcLog_touched:
  assumes "distinct (map l_id orig)" "lg \<in> set orig" "l_type lg = ''exercise''"
    "D \<le> getVirtualDate (l_timestamp lg)" "list_all2 (touched D) orig (w_logs w)"
  shows "list_all2 (touched D) orig (w_logs (recalcLog C dateStr streak w lg))"
  using assms by (simp add: recalcLog_def Let_def updateLog_touched)

lemma foldl_recalcLog_touched:
  assumes "distinct (map l_id orig)"
    and "\<forall>lg \<in> set lgs. lg \<in> set orig \<and> l_type lg = ''exercise'' \<and>
           D \<le> getVirtualDate (l_timestamp lg)"
    and "list_all2 (touched D) orig (w_logs w)"
  shows "list_all2 (touched D) orig (w_logs (foldl (recalcLog C dateStr streak) w lgs))"
  using assms(2,3)
proof (induction lgs arbitrary: w)
  case Nil
  then show ?case by simp
next
  case (Cons lg lgs)
  then show ?case by (simp add: recalcLog_touched [OF assms(1)])
qed

lemma walkDay_touched:
  assumes "distinct (map l_id orig)" "D \<le> calendarDay cur"
    "list_all2 (touched D) orig (w_logs w)"
  shows "list_all2 (touched D) orig
           (w_logs (walkDay C checkMap anchor (exerciseLogsByDate orig) cur w))"
  unfolding walkDay_def Let_def
  using assms by (intro foldl_recalcLog_touched) (auto simp: exerciseLogsByDate_eq)

lemma walkOf_touched:
  assumes "distinct (map l_id (db_logs s))"
  shows "list_all2 (touched (getVirtualDate t)) (db_logs s) (w_logs (walkOf C t now s))"
  unfolding walkOf_def Let_def
proof (rule forwardWalk_invariant
    [where P = "\<lambda>w :: walk. list_all2 (touched (getVirtualDate t)) (db_logs s) (w_logs w)"
       and start = "startOfDay (dayjsOfDay (getVirtualDate t))"])
  fix d and w :: walk
  assume "startOfDay (dayjsOfDay (getVirtualDate t)) \<le> d"
    and "list_all2 (touched (getVirtualDate t)) (db_logs s) (w_logs w)"
  then show "list_all2 (touched (getVirtualDate t)) (db_logs s)
      (w_logs (walkDay C (buildCheckMap (db_checks s)) (firstDate now (db_logs s) (db_checks s))
                 (exerciseLogsByDate (db_logs s)) d w))"
    using calendarDay_mono [of "startOfDay (dayjsOfDay (getVirtualDate t))" d]
    by (intro walkDay_touched [OF assms]) (simp_all add: calendarDay_startOfDay)
qed (simp_all add: touched_refl)

section \<open>Properties of the transaction\<close>

lemma recalc_logs: "db_logs (fst (recalcImpactedHistory C t now s)) = w_logs (walkOf C t now s)"
  by (simp add: recalcImpactedHistory_def Let_def)

lemma recalc_checks: "db_checks (fst (recalcImpactedHistory C t now s)) = db_checks s"
  by (simp add: recalcImpactedHistory_def Let_def)

lemma recalc_archives:
  "db_period_archives (fst (recalcImpactedHistory C t now s)) =
   fst (foldl (refreshArchive (w_logs (walkOf C t now s)) now)
          (db_period_archives s, w_writes (walkOf C t now s))
          (affectedArchives t (db_period_archives s)))"
  by (simp add: recalcImpactedHistory_def Let_def)

lemma set_affectedArchives: "set (affectedArchives t as) = {a \<in> set as. t \<le> a_endDate a}"
  by (simp add: affectedArchives_def)

subsection \<open>The archive invariant\<close>

lemma refreshArchive_ok:
  "list_all archiveOk as \<Longrightarrow> list_all archiveOk (fst (refreshArchive L now (as, ws) a))"
  by (auto simp: refreshArchive_def updateArchive_def Let_def list_all_iff archiveOk_def)

lemma foldl_refreshArchive_ok:
  "list_all archiveOk as \<Longrightarrow>
   list_all archiveOk (fst (foldl (refreshArchive L now) (as, ws) xs))"
proof (induction xs arbitrary: as ws)
  case Nil
  then show ?case by simp
next
  case (Cons x xs)
  obtain as' ws' where r: "refreshArchive L now (as, ws) x = (as', ws')"
    by (cases "refreshArchive L now (as, ws) x")
  with refreshArchive_ok [OF Cons.prems, of L now ws x] have "list_all archiveOk as'" by simp
  then show ?case using Cons.IH r by simp
qed

lemma recalc_ok:
  "list_all archiveOk (db_period_archives s) \<Longrightarrow>
   list_all archiveOk (db_period_archives (fst (recalcImpactedHistory C t now s)))"
  by (simp add: recalc_archives foldl_refreshArchive_ok)

lemma archiveAndReset_ok:
  "list_all archiveOk (db_period_archives s) \<Longrightarrow>
   list_all archiveOk (db_period_archives (archiveAndReset cs ns m now s))"
  by (simp add: archiveAndReset_def Let_def archiveOk_def split: option.splits)

lemma checkPeriodRollover_ok:
  "list_all archiveOk (db_period_archives s) \<Longrightarrow>
   list_all archiveOk (db_period_archives (snd (checkPeriodRollover dflt now s)))"
  by (simp add: checkPeriodRollover_def Let_def archiveAndReset_ok split: option.splits)

lemma updatePeriodSettings_archives:
  "db_period_archives (snd (updatePeriodSettings m cd now s)) =
     (if m = ''permanent'' then [] else db_period_archives s)"
  by (simp add: updatePeriodSettings_def Let_def foldl_restoreArchive split: option.splits)

lemma reachable_ok: "reachable C s \<Longrightarrow> list_all archiveOk (db_period_archives s)"
proof (induction rule: reachable.induct)
  case (init s)
  then show ?case by simp
next
  case (mutate s s')
  then show ?case by simp
next
  case (recalc s t now)
  then show ?case by (simp add: recalc_ok)
next
  case (archive s currentStart nextStart m now)
  then show ?case by (simp add: archiveAndReset_ok)
next
  case (rollover s dflt now)
  then show ?case by (simp add: checkPeriodRollover_ok)
next
  case (settings s m cd now)
  then show ?case by (simp add: updatePeriodSettings_archives)
qed

lemma foldl_refreshArchive_startDates:
  "map a_startDate (fst (foldl (refreshArchive L now) (as, ws) xs)) = map a_startDate as"
proof (induction xs arbitrary: as ws)
  case Nil
  show ?case by simp
next
  case (Cons x xs)
  have u: "map a_startDate
          (updateArchive (a_id x) (sumKcal (logsBetween (a_startDate x) (a_endDate x) L))
             (logsBetween (a_startDate x) (a_endDate x) L) now as) = map a_startDate as"
    by (simp add: updateArchive_def comp_def if_distrib [of a_startDate] cong: if_cong)
  have "foldl (refreshArchive L now) (as, ws) (x # xs) =
        foldl (refreshArchive L now)
          (updateArchive (a_id x) (sumKcal (logsBetween (a_startDate x) (a_endDate x) L))
             (logsBetween (a_startDate x) (a_endDate x) L) now as,
           ws @ [ArchiveUpdate (a_id x) (sumKcal (logsBetween (a_startDate x) (a_endDate x) L))
                   (logsBetween (a_startDate x) (a_endDate x) L) now]) xs"
    by (simp add: refreshArchive_def Let_def)
  then show ?case by (simp only: Cons.IH u)
qed

lemma recalc_startDates:
  "map a_startDate (db_period_archives (fst (recalcImpactedHistory C t now s))) =
   map a_startDate (db_period_archives s)"
  by (simp add: recalc_archives foldl_refreshArchive_startDates)

lemma checkPeriodRollover_distinct:
  "distinct (map a_startDate (db_period_archives s)) \<Longrightarrow>
   distinct (map a_startDate (db_period_archives (snd (checkPeriodRollover dflt now s))))"
  by (simp add: checkPeriodRollover_def Let_def archiveAndReset_distinct split: option.splits)

lemma reachable_distinct_startDate:
  "reachable C s \<Longrightarrow> distinct (map a_startDate (db_period_archives s))"
proof (induction rule: reachable.induct)
  case (init s)
  then show ?case by simp
next
  case (mutate s s')
  then show ?case by simp
next
  case (recalc s t now)
  then show ?case by (simp add: recalc_startDates)
next
  case (archive s currentStart nextStart m now)
  then show ?case by (simp add: archiveAndReset_distinct)
next
  case (rollover s dflt now)
  then show ?case by (simp add: checkPeriodRollover_distinct)
next
  case (settings s m cd now)
  then show ?case by (simp add: updatePeriodSettings_archives)
qed

subsection \<open>No two archives of one start date\<close>

text \<open>
  C7. In every store the service can reach, and more generally in every store whose
  archives have pairwise different start dates, \<open>archiveAndReset\<close> leaves archives with
  pairwise different start dates. A second call with the same arguments, at any later
  instant, changes nothing: the store after it is the store after the first call, so no
  second archive is created, the logs are those before the first call, and the period
  start is \<open>nextStart\<close>.
\<close>

theorem archiveAndReset_rollover_once:
  "(reachable C s \<longrightarrow>
      distinct (map a_startDate (db_period_archives (archiveAndReset cs ns m now s)))) \<and>
   (distinct (map a_startDate (db_period_archives s)) \<longrightarrow>
      distinct (map a_startDate (db_period_archives (archiveAndReset cs ns m now s)))) \<and>
   archiveAndReset cs ns m now' (archiveAndReset cs ns m now s) = archiveAndReset cs ns m now s \<and>
   db_period_archives (archiveAndReset cs ns m now' (archiveAndReset cs ns m now s)) =
     db_period_archives (archiveAndReset cs ns m now s) \<and>
   db_logs (archiveAndReset cs ns m now' (archiveAndReset cs ns m now s)) = db_logs s \<and>
   PERIOD_START (archiveAndReset cs ns m now' (archiveAndReset cs ns m now s)) = Some ns"
  using reachable_distinct_startDate [of C s]
  by (simp add: archiveAndReset_twice archiveAndReset_logs archiveAndReset_start
      archiveAndReset_distinct)

theorem archiveAndReset_rollover_once_witness:
  "reachable exCalc exStore \<and>
   distinct (map a_startDate (db_period_archives exStore)) \<and>
   distinct (map a_startDate (db_period_archives exArchived)) \<and>
   archiveAndReset 0 172800000 ''weekly'' 237600001 exArchived = exArchived \<and>
   map a_startDate (db_period_archives exArchived) = [0]"
proof -
  have r: "reachable exCalc exStore"
    by (rule reachable.init) (simp add: exStore_def)
  have d: "distinct (map a_startDate (db_period_archives exStore))"
    by (simp add: exStore_def)
  have a: "map a_startDate (db_period_archives exArchived) = [0]"
    by (simp add: exArchived_def exStore_def exLog_def archiveAndReset_def logsBelow_def Let_def)
  from archiveAndReset_rollover_once
         [of exCalc exStore 0 172800000 "''weekly''" 237600000 237600001] r d a
  show ?thesis unfolding exArchived_def by simp
qed

text \<open>
  C2. In every store the service can reach, after a run of \<open>recalcImpactedHistory\<close> and
  after a run of \<open>archiveAndReset\<close>, the \<open>totalBalance\<close> of every archive is the sum of
  \<open>kcal || 0\<close> over the logs of its snapshot, taken in the order of the snapshot.
\<close>

theorem archive_totalBalance_invariant:
  assumes "reachable C s"
  shows "(\<forall>a \<in> set (db_period_archives (fst (recalcImpactedHistory C t now s))).
            a_totalBalance a = sumKcal (a_logs a)) \<and>
         (\<forall>a \<in> set (db_period_archives (archiveAndReset currentStart nextStart mode now' s)).
            a_totalBalance a = sumKcal (a_logs a))"
  using reachable_ok [OF reachable.recalc [OF assms, of t now]]
    reachable_ok [OF reachable.archive [OF assms, of currentStart nextStart mode now']]
  by (simp add: list_all_iff archiveOk_def)

lemma exArchived_archives:
  "map (\<lambda>a. (a_id a, a_startDate a, a_endDate a, a_totalBalance a, map l_id (a_logs a)))
     (db_period_archives exArchived) = [(1, 0, 172799999, - 40, [1, 2])]"
  by (simp add: exArchived_def exStore_def exLog_def archiveAndReset_def logsBelow_def Let_def
      sumKcal_def kcalOr0_def)

theorem archive_totalBalance_invariant_witness:
  "reachable exCalc exArchived \<and>
   list_all (\<lambda>a. a_totalBalance a = sumKcal (a_logs a))
     (db_period_archives (fst (recalcImpactedHistory exCalc 129600000 237600000 exArchived))) \<and>
   list_all (\<lambda>a. a_totalBalance a = sumKcal (a_logs a))
     (db_period_archives (archiveAndReset 172800000 259200000 ''weekly'' 259200001 exArchived)) \<and>
   db_period_archives exArchived \<noteq> []"
proof -
  have "reachable exCalc exStore"
    by (rule reachable.init) (simp add: exStore_def)
  then have r: "reachable exCalc exArchived"
    unfolding exArchived_def by (rule reachable.archive)
  have ne: "db_period_archives exArchived \<noteq> []"
    using exArchived_archives by auto
  from archive_totalBalance_invariant
         [OF r, of 129600000 237600000 172800000 259200000 "''weekly''" 259200001]
  show ?thesis using r ne by (simp add: list_all_iff)
qed

subsection \<open>What the refresh may change in the table of the archives\<close>

lemma updateArchive_refreshed:
  assumes dist: "distinct (map a_id orig)"
    and x: "x \<in> set orig" "t \<le> a_endDate x"
    and inv: "list_all2 (refreshed t) orig cur"
  shows "list_all2 (refreshed t) orig (updateArchive (a_id x) tb pl now cur)"
proof -
  have "list_all2 (\<lambda>a a'. refreshed t a
          (if a_id a' = a_id x
           then a'\<lparr>a_totalBalance := tb, a_logs := pl, a_updatedAt := Some now\<rparr> else a'))
          orig cur"
    using inv
  proof (rule list.rel_mono_strong)
    fix a a' assume mem: "a \<in> set orig" and r: "refreshed t a a'"
    show "refreshed t a (if a_id a' = a_id x
           then a'\<lparr>a_totalBalance := tb, a_logs := pl, a_updatedAt := Some now\<rparr> else a')"
    proof (cases "a_id a' = a_id x")
      case False
      with r show ?thesis by simp
    next
      case True
      with r have "a_id a = a_id x" by (simp add: refreshed_def)
      with dist mem x(1) have "a = x" by (meson distinct_map inj_on_eq_iff)
      with True r x(2) show ?thesis by (simp add: refreshed_def)
    qed
  qed
  then show ?thesis by (simp add: updateArchive_def list_all2_map2)
qed

lemma foldl_refreshArchive_refreshed:
  assumes dist: "distinct (map a_id orig)"
  shows "\<forall>x \<in> set xs. x \<in> set orig \<and> t \<le> a_endDate x \<Longrightarrow>
         list_all2 (refreshed t) orig as \<Longrightarrow>
         list_all2 (refreshed t) orig (fst (foldl (refreshArchive L now) (as, ws) xs))"
proof (induction xs arbitrary: as ws)
  case Nil
  then show ?case by simp
next
  case (Cons x xs)
  have "list_all2 (refreshed t) orig
          (updateArchive (a_id x) (sumKcal (logsBetween (a_startDate x) (a_endDate x) L))
             (logsBetween (a_startDate x) (a_endDate x) L) now as)"
    using Cons.prems by (intro updateArchive_refreshed [OF dist]) simp_all
  moreover have "\<forall>x \<in> set xs. x \<in> set orig \<and> t \<le> a_endDate x"
    using Cons.prems(1) by simp
  ultimately show ?case
    using Cons.IH by (simp add: refreshArchive_def Let_def)
qed

lemma recalc_refreshed:
  assumes "distinct (map a_id (db_period_archives s))"
  shows "list_all2 (refreshed t) (db_period_archives s)
           (db_period_archives (fst (recalcImpactedHistory C t now s)))"
  unfolding recalc_archives
  by (intro foldl_refreshArchive_refreshed [OF assms])
     (simp_all add: set_affectedArchives list_all2_same refreshed_def)

lemma exArchived_distinct:
  "distinct (map l_id (db_logs exArchived)) \<and> distinct (map a_id (db_period_archives exArchived))"
  by (simp add: exArchived_def exStore_def exLog_def archiveAndReset_def logsBelow_def Let_def)

lemma exArchived_recalc:
  "map (\<lambda>l. (l_id l, l_kcal l, l_memo l))
     (db_logs (fst (recalcImpactedHistory exCalc 129600000 237600000 exArchived))) =
     [(1, Some (- 140), None), (2, Some 100, Some []), (3, Some 120, Some ''Streak Bonus x1.2'')]"
  by (simp add: recalcImpactedHistory_def walkOf_def Let_def exArchived_def archiveAndReset_def
      logsBelow_def exStore_def exLog_def exCalc_def
      forwardWalk.simps walkDay_def recalcLog_def exerciseLogsByDate_def getVirtualDate_def
      calendarDay_def startOfDay_def endOfDay_def dayjsOfDay_def buildCheckMap_def buildLogMap_def
      logMapStep_def firstDate_def minTimestamp_def MAX_SAFE_INTEGER_def newMemo_def trim_def
      kcalOr0_def updateLog_def)

text \<open>
  C3. With the primary keys of the two tables pairwise different,
  \<open>recalcImpactedHistory\<close> for the changed instant \<open>t\<close> leaves every log whose virtual day
  is before the virtual day of \<open>t\<close> as it is, leaves the table of the checks as it is, and
  leaves every archive whose \<open>endDate\<close> is before \<open>t\<close> as it is; no row is added to or
  removed from a table.
\<close>

theorem recalc_forward_only:
  assumes "distinct (map l_id (db_logs s))" and "distinct (map a_id (db_period_archives s))"
  shows "list_all2 (\<lambda>l l'. getVirtualDate (l_timestamp l) < getVirtualDate t \<longrightarrow> l' = l)
           (db_logs s) (db_logs (fst (recalcImpactedHistory C t now s))) \<and>
         db_checks (fst (recalcImpactedHistory C t now s)) = db_checks s \<and>
         list_all2 (\<lambda>a a'. a_endDate a < t \<longrightarrow> a' = a)
           (db_period_archives s) (db_period_archives (fst (recalcImpactedHistory C t now s)))"
proof (intro conjI)
  show "list_all2 (\<lambda>l l'. getVirtualDate (l_timestamp l) < getVirtualDate t \<longrightarrow> l' = l)
           (db_logs s) (db_logs (fst (recalcImpactedHistory C t now s)))"
    unfolding recalc_logs
    using walkOf_touched [OF assms(1), of t C now]
    by (rule list_all2_mono) (auto simp: touched_def)
  show "db_checks (fst (recalcImpactedHistory C t now s)) = db_checks s"
    by (rule recalc_checks)
  show "list_all2 (\<lambda>a a'. a_endDate a < t \<longrightarrow> a' = a)
           (db_period_archives s) (db_period_archives (fst (recalcImpactedHistory C t now s)))"
    using recalc_refreshed [OF assms(2), of t C now]
    by (rule list_all2_mono) (auto simp: refreshed_def)
qed

theorem recalc_forward_only_witness:
  "(distinct (map l_id (db_logs exArchived)) \<and>
    distinct (map a_id (db_period_archives exArchived))) \<and>
   (list_all2 (\<lambda>l l'. getVirtualDate (l_timestamp l) < getVirtualDate 216000000 \<longrightarrow> l' = l)
      (db_logs exArchived)
      (db_logs (fst (recalcImpactedHistory exCalc 216000000 237600000 exArchived))) \<and>
    db_checks (fst (recalcImpactedHistory exCalc 216000000 237600000 exArchived))
      = db_checks exArchived \<and>
    list_all2 (\<lambda>a a'. a_endDate a < 216000000 \<longrightarrow> a' = a)
      (db_period_archives exArchived)
      (db_period_archives (fst (recalcImpactedHistory exCalc 216000000 237600000 exArchived))))"
  using exArchived_distinct
    recalc_forward_only [of exArchived 216000000 exCalc 237600000]
  by blast

text \<open>
  C9. With the primary keys of the logs pairwise different, \<open>recalcImpactedHistory\<close>
  leaves the table of the logs with the same rows in the same order; of a row it changes
  at most \<open>kcal\<close> and \<open>memo\<close>, and a row whose type is not \<open>exercise\<close>, so every beer, is
  left exactly as it is.
\<close>

theorem recalc_rewrites_only_exercise:
  assumes "distinct (map l_id (db_logs s))"
  shows "list_all2 (\<lambda>l l'. onlyKcalMemo l l' \<and> (l_type l \<noteq> ''exercise'' \<longrightarrow> l' = l))
           (db_logs s) (db_logs (fst (recalcImpactedHistory C t now s)))"
  unfolding recalc_logs
  using walkOf_touched [OF assms, of t C now]
  by (rule list_all2_mono) (auto simp: touched_def)

theorem recalc_rewrites_only_exercise_witness:
  "distinct (map l_id (db_logs exArchived)) \<and>
   list_all2 (\<lambda>l l'. onlyKcalMemo l l' \<and> (l_type l \<noteq> ''exercise'' \<longrightarrow> l' = l))
     (db_logs exArchived)
     (db_logs (fst (recalcImpactedHistory exCalc 129600000 237600000 exArchived))) \<and>
   map (\<lambda>l. (l_id l, l_kcal l, l_memo l))
     (db_logs (fst (recalcImpactedHistory exCalc 129600000 237600000 exArchived))) =
     [(1, Some (- 140), None), (2, Some 100, Some []), (3, Some 120, Some ''Streak Bonus x1.2'')]"
  using exArchived_distinct exArchived_recalc
    recalc_rewrites_only_exercise [of exArchived exCalc 129600000 237600000]
  by blast

section \<open>Idempotence of the recalculation\<close>

subsection \<open>The walk as a fold over its days\<close>









subsection \<open>The aggregates of the days in closed form\<close>



lemma dayTotal_Nil: "dayTotal C e [] = e"
  by (simp add: dayTotal_def)





lemma rewrite_fields [simp]:
  "l_timestamp (rewrite i k m l) = l_timestamp l" "l_type (rewrite i k m l) = l_type l"
  "l_id (rewrite i k m l) = l_id l"
  by (simp_all add: rewrite_def)





subsection \<open>The invariant of the first walk\<close>













subsection \<open>The second walk\<close>





subsection \<open>The refresh in closed form\<close>






subsection \<open>The second call\<close>

lemmas eval_defs = recalcImpactedHistory_def walkOf_def Let_def exArchived_def archiveAndReset_def
  logsBelow_def logsBetween_def exStore_def exLog_def exCalc_def exHidden_def
  forwardWalk.simps walkDay_def recalcLog_def exerciseLogsByDate_def getVirtualDate_def
  calendarDay_def startOfDay_def endOfDay_def dayjsOfDay_def buildCheckMap_def buildLogMap_def
  logMapStep_def firstDate_def minTimestamp_def MAX_SAFE_INTEGER_def newMemo_def trim_def
  kcalOr0_def updateLog_def affectedArchives_def refreshArchive_def updateArchive_def
  sumKcal_def isNumDot_def isSpace_def






text \<open>
  Each hypothesis on the logs and on the oracle is needed. Without it the second call
  can persist a log update: for a memo that hides a marker inside a marker, for an
  oracle that reads the balance of the very day, and for an exercise log without a
  stored \<open>kcal\<close>, which the first call counts twice in the running balance.
\<close>

lemma second_call_hidden_marker:
  "snd (recalcImpactedHistory exCalc 129600000 237600000 exHidden) =
     [LogUpdate 2 100 ''Streak Bonus x2''] \<and>
   snd (recalcImpactedHistory exCalc 129600000 237600001
          (fst (recalcImpactedHistory exCalc 129600000 237600000 exHidden))) =
     [LogUpdate 2 100 []]"
  by (simp add: eval_defs)

lemma second_call_oracle_of_same_day:
  "snd (recalcImpactedHistory exCalcToday 129600000 237600000 exOne) =
     [LogUpdate 2 120 ''Streak Bonus x1.2''] \<and>
   snd (recalcImpactedHistory exCalcToday 129600000 237600001
          (fst (recalcImpactedHistory exCalcToday 129600000 237600000 exOne))) =
     [LogUpdate 2 100 []]"
  by (simp add: eval_defs exCalcToday_def exOne_def)

lemma causal_exCalcPrev: "causal exCalcPrev"
  by (simp add: causal_def exCalcPrev_def exCalc_def)

lemma second_call_log_without_kcal:
  "snd (recalcImpactedHistory exCalcPrev 129600000 237600000 exNoKcal) =
     [LogUpdate 2 100 [], LogUpdate 3 120 ''Streak Bonus x1.2''] \<and>
   snd (recalcImpactedHistory exCalcPrev 129600000 237600001
          (fst (recalcImpactedHistory exCalcPrev 129600000 237600000 exNoKcal))) =
     [LogUpdate 3 100 []]"
  by (simp add: eval_defs exCalcPrev_def exNoKcal_def)

end
